theory Spec2Isabelle
  imports Complex_Main "HOL-Library.Multiset"
begin

section \<open>Scoring stage: src/evaluator/index.ts\<close>

subsection \<open>Data\<close>

text \<open>
  A value caught by a \<^verbatim>\<open>catch\<close> clause is either an \<^verbatim>\<open>Error\<close> instance, which has a
  message, or any other thrown value, kept here as its \<^verbatim>\<open>String(error)\<close> rendering.
\<close>

datatype thrown = ErrorInst string | NonError string

text \<open>\<^verbatim>\<open>error instanceof Error ? error.message : String(error)\<close> (index.ts, lines 143 and 148).\<close>

fun error_text :: "thrown \<Rightarrow> string" where
  "error_text (ErrorInst m) = m"
| "error_text (NonError s) = s"

datatype Confidence = High | Medium | Low

text \<open>
  \<^verbatim>\<open>TherapistScore\<close> is \<^verbatim>\<open>z.infer<typeof TherapistScoreSchema>\<close>. The schemas module
  that index.ts imports is the text after line 269 of src/evaluator/mock-profile.ts, and
  \<^verbatim>\<open>TherapistScoreSchema\<close> is its lines 479 to 509: a number \<^verbatim>\<open>score\<close>, an object
  \<^verbatim>\<open>reasoning\<close> (a summary, two arrays of flags found, each flag with its evidence and its
  impact, two optional arrays of strings) and a \<^verbatim>\<open>confidence\<close> of high, medium or low.
  A score is a JSON number: a real.
\<close>

record FlagFound =
  flag :: string
  evidence :: string
  impact :: string

record Reasoning =
  summary :: string
  greenFlagsFound :: "FlagFound list"
  redFlagsFound :: "FlagFound list"
  missingElements :: "string list option"
  unexpectedPositives :: "string list option"

record TherapistScore =
  score :: real
  reasoning :: Reasoning
  confidence :: Confidence

text \<open>\<^verbatim>\<open>type AnalysisResult = TherapistScore & { url: string; error?: string }\<close>\<close>

record AnalysisResult = TherapistScore +
  url :: string
  error :: "string option"

text \<open>
  \<^verbatim>\<open>interface TherapistProfile\<close> (index.ts, lines 13 to 23). The field names carry a prefix
  (\<^verbatim>\<open>url\<close> is a field of \<open>AnalysisResult\<close>, the others are fields of the scraper's
  records below). The interface declares \<^verbatim>\<open>data\<close> as always present, and the model
  follows the declared type.
\<close>

record ProfileData =
  profile_name :: string
  profile_rating :: real
  profile_reviewCount :: real
  profile_aboutText :: string
  profile_extendedAbout :: "string option"

record TherapistProfile =
  profile_url :: string
  profile_data :: ProfileData
  profile_pageNumber :: nat

definition MAX_RETRIES :: nat where
  "MAX_RETRIES = 3"

definition BATCH_SIZE :: nat where
  "BATCH_SIZE = 3"

subsection \<open>The remote scorer\<close>

text \<open>
  What one invocation of \<^verbatim>\<open>service.scoreTherapist\<close> meets, step by step (lines 57 to 75):
  \<^item> \<open>Rejects e\<close>: \<^verbatim>\<open>generateContent\<close> throws \<open>e\<close>;
  \<^item> \<open>EmptyText\<close>: the response arrives and \<^verbatim>\<open>response.text\<close> is undefined or empty;
  \<^item> \<open>NotJson m\<close>: \<^verbatim>\<open>JSON.parse(response.text)\<close> throws a SyntaxError with message \<open>m\<close>;
  \<^item> \<open>Mismatch m\<close>: the text is JSON of another shape than the schema's object, which the
    schema rejects with message \<open>m\<close>;
  \<^item> \<open>Candidate c issues\<close>: the text is JSON with the fields of the schema's object, each
    of the schema's type, its numbers not yet checked against their bounds; \<open>issues\<close> is
    the message of the error the schema's \<^verbatim>\<open>parse\<close> throws when a number of \<open>c\<close> is out of
    bounds (the message is the library's, not the program's).
  The remote service is not part of the program: a \<open>remote\<close> gives, for a profile and the
  number of earlier attempts on it, what the next invocation meets.
\<close>

datatype 'c reply =
  Rejects thrown
| EmptyText
| NotJson string
| Mismatch string
| Candidate 'c string

type_synonym remote = "TherapistProfile \<Rightarrow> nat \<Rightarrow> TherapistScore reply"

text \<open>
  \<^verbatim>\<open>TherapistScoreSchema.parse\<close> on an object of the schema's shape: what is left to check
  is \<^verbatim>\<open>score: z.number().min(0).max(100)\<close> (mock-profile.ts, line 480), both bounds
  inclusive. The object is returned when the score is within them, and an error with the
  library's message is thrown otherwise.
\<close>

definition TherapistScoreSchema_parse ::
  "TherapistScore \<Rightarrow> string \<Rightarrow> thrown + TherapistScore" where
  "TherapistScoreSchema_parse c issues =
     (if 0 \<le> score c \<and> score c \<le> 100 then Inr c else Inl (ErrorInst issues))"

text \<open>\<^verbatim>\<open>TherapistMatchingService.scoreTherapist\<close> on one reply of the remote.\<close>

fun scoreTherapist :: "TherapistScore reply \<Rightarrow> thrown + TherapistScore" where
  "scoreTherapist (Rejects e) = Inl e"
| "scoreTherapist EmptyText = Inl (ErrorInst ''Empty response from Gemini'')"
| "scoreTherapist (NotJson m) = Inl (ErrorInst m)"
| "scoreTherapist (Mismatch m) = Inl (ErrorInst m)"
| "scoreTherapist (Candidate c issues) = TherapistScoreSchema_parse c issues"

subsection \<open>analyzeTherapist\<close>

text \<open>The object of lines 116 to 119: \<^verbatim>\<open>{ url: therapistProfile.url, ...scoreResult }\<close>.\<close>

definition analysis_ok :: "TherapistProfile \<Rightarrow> TherapistScore \<Rightarrow> AnalysisResult" where
  "analysis_ok p s =
     \<lparr> score = score s, reasoning = reasoning s, confidence = confidence s,
       url = profile_url p, error = None \<rparr>"

text \<open>The object of lines 138 to 149, returned once the retries are used up.\<close>

definition analysis_failed :: "TherapistProfile \<Rightarrow> thrown \<Rightarrow> AnalysisResult" where
  "analysis_failed p e =
     \<lparr> score = 0,
       reasoning = \<lparr> summary = ''ANALYSIS FAILED: '' @ error_text e,
                     greenFlagsFound = [], redFlagsFound = [],
                     missingElements = None, unexpectedPositives = None \<rparr>,
       confidence = Low,
       url = profile_url p,
       error = Some (error_text e) \<rparr>"

text \<open>
  \<^verbatim>\<open>analyzeTherapist(service, therapistProfile, ..., retryCount = 0)\<close>: the result, and the
  number of times \<^verbatim>\<open>service.scoreTherapist\<close> was invoked to get it. The function calls
  itself with \<^verbatim>\<open>retryCount + 1\<close> while \<^verbatim>\<open>retryCount < MAX_RETRIES\<close>.
\<close>

function analyzeTherapist :: "remote \<Rightarrow> TherapistProfile \<Rightarrow> nat \<Rightarrow> AnalysisResult \<times> nat" where
  "analyzeTherapist svc p retryCount =
     (case scoreTherapist (svc p retryCount) of
        Inr scoreResult \<Rightarrow> (analysis_ok p scoreResult, 1)
      | Inl e \<Rightarrow>
          if retryCount < MAX_RETRIES
          then (case analyzeTherapist svc p (retryCount + 1) of (r, n) \<Rightarrow> (r, Suc n))
          else (analysis_failed p e, 1))"
  by pat_completeness auto
termination
  by (relation "measure (\<lambda>(svc, p, retryCount). MAX_RETRIES - retryCount)") auto

declare analyzeTherapist.simps [simp del]

text \<open>\<^verbatim>\<open>processBatch\<close>: \<^verbatim>\<open>Promise.all(profiles.map((p) => analyzeTherapist(service, p, ...)))\<close>,
  each result with the number of invocations it took.\<close>

definition processBatch :: "remote \<Rightarrow> TherapistProfile list \<Rightarrow> (AnalysisResult \<times> nat) list" where
  "processBatch svc profiles = map (\<lambda>p. analyzeTherapist svc p 0) profiles"

subsection \<open>main\<close>

datatype console_event =
  Restored nat
| CorruptWarning
| AllAnalyzed
| ToAnalyze nat

text \<open>
  Step 4 of \<^verbatim>\<open>main\<close> (lines 205 to 213). The output file is \<open>None\<close> when it does not exist
  and its text otherwise. \<^verbatim>\<open>JSON.parse\<close> is a parameter: \<open>None\<close> is its SyntaxError, which
  the \<^verbatim>\<open>catch\<close> clause answers with a warning, leaving \<^verbatim>\<open>results\<close> empty. A text that
  parses is taken to hold what the code declares it to hold, an array of
  \<^verbatim>\<open>AnalysisResult\<close>.
\<close>

definition load_results ::
  "(string \<Rightarrow> AnalysisResult list option) \<Rightarrow> string option \<Rightarrow>
   AnalysisResult list \<times> console_event list" where
  "load_results JSON_parse outputFile =
     (case outputFile of
        None \<Rightarrow> ([], [])
      | Some content \<Rightarrow>
          (case JSON_parse content of
             Some parsed \<Rightarrow> (parsed, [Restored (length parsed)])
           | None \<Rightarrow> ([], [CorruptWarning])))"

text \<open>Lines 226 to 229: \<^verbatim>\<open>for (let i = 0; i < n; i += BATCH_SIZE) batches.push(slice(i, i + BATCH_SIZE))\<close>.\<close>

function make_batches :: "'a list \<Rightarrow> nat \<Rightarrow> 'a list list" where
  "make_batches profilesToAnalyze i =
     (if i < length profilesToAnalyze
      then take BATCH_SIZE (drop i profilesToAnalyze) # make_batches profilesToAnalyze (i + BATCH_SIZE)
      else [])"
  by pat_completeness auto
termination
  by (relation "measure (\<lambda>(profilesToAnalyze, i). length profilesToAnalyze - i)")
     (auto simp: BATCH_SIZE_def)

declare make_batches.simps [simp del]

text \<open>
  The state of the loop of lines 231 to 248: the accumulator \<^verbatim>\<open>results\<close>, every profile sent
  to the scorer so far with the number of invocations spent on it, and every snapshot
  \<^verbatim>\<open>Bun.write\<close> has stored in the output file.
\<close>

record run_state =
  results :: "AnalysisResult list"
  ledger :: "(TherapistProfile \<times> nat) list"
  writes :: "AnalysisResult list list"

fun run_batches :: "remote \<Rightarrow> TherapistProfile list list \<Rightarrow> run_state \<Rightarrow> run_state" where
  "run_batches svc [] st = st"
| "run_batches svc (batch # batches) st =
     (let batchResults = processBatch svc batch;
          results' = results st @ map fst batchResults
      in run_batches svc batches
           \<lparr> results = results',
             ledger = ledger st @ zip batch (map snd batchResults),
             writes = writes st @ [results'] \<rparr>)"

datatype ending = Exit nat | Returned

record main_run =
  console :: "console_event list"
  scored :: "(TherapistProfile \<times> nat) list"
  written :: "AnalysisResult list list"
  ending :: ending

text \<open>
  \<^verbatim>\<open>main\<close> from step 4 on (lines 204 to 252), the input profiles already read. The final
  \<^verbatim>\<open>results.sort((a, b) => b.score - a.score)\<close> is a stable sort by descending score.
\<close>

definition main ::
  "(string \<Rightarrow> AnalysisResult list option) \<Rightarrow> string option \<Rightarrow> TherapistProfile list \<Rightarrow>
   remote \<Rightarrow> main_run" where
  "main JSON_parse outputFile profiles svc =
     (case load_results JSON_parse outputFile of
        (loaded, logged) \<Rightarrow>
          let analyzedUrls = set (map url loaded);
              profilesToAnalyze = filter (\<lambda>p. profile_url p \<notin> analyzedUrls) profiles
          in if length profilesToAnalyze = 0
             then \<lparr> console = logged @ [AllAnalyzed], scored = [], written = [], ending = Exit 0 \<rparr>
             else
               let st = run_batches svc (make_batches profilesToAnalyze 0)
                          \<lparr> results = loaded, ledger = [], writes = [] \<rparr>
               in \<lparr> console = logged @ [ToAnalyze (length profilesToAnalyze)],
                    scored = ledger st,
                    written = writes st @ [sort_key (\<lambda>r. - score r) (results st)],
                    ending = Returned \<rparr>)"

section \<open>The single-pass scoring script (src/unnamed/part_002)\<close>










section \<open>Extraction stage: src/unnamed/part_005 (batch-scraper) and part_003\<close>

subsection \<open>Data\<close>

text \<open>\<^verbatim>\<open>interface DoctorInfo\<close> (src/doctor-scraper.ts, lines 14 to 21).\<close>

record DoctorInfo =
  name :: string
  rating :: "real option"
  reviewCount :: "real option"
  aboutText :: string
  extendedAbout :: "string option"
  avatar :: "string option"

text \<open>\<^verbatim>\<open>interface DoctorResult\<close> (part_005, lines 8 to 13).\<close>

record DoctorResult =
  doctor_url :: string
  data :: "DoctorInfo option"
  scrape_error :: "string option"
  pageNumber :: "nat option"

subsection \<open>getDoctorLinksWithPagination\<close>

text \<open>
  What \<^verbatim>\<open>page.goto\<close> and \<^verbatim>\<open>page.$$eval\<close> give for a page number: an exception (caught at
  line 110), or the \<^verbatim>\<open>href\<close>s of the anchors the selector matches, in document order.
\<close>

datatype page_load = LoadFails | Anchors "string list"

text \<open>\<^verbatim>\<open>href?.startsWith("http")\<close> (line 81).\<close>

definition startsWith_http :: "string \<Rightarrow> bool" where
  "startsWith_http href = (take 4 href = ''http'')"

text \<open>
  The variables of the walk: \<^verbatim>\<open>allPages\<close>, \<^verbatim>\<open>allUniqueUrls\<close>, and the page numbers
  \<^verbatim>\<open>page.goto\<close> was called for in the loop, in order. (The visit of line 38, which
  answers the cookie banner on the listing's first page, comes before the walk and is not
  part of it.)
\<close>

record walk_state =
  allPages :: "(string list \<times> nat) list"
  allUniqueUrls :: "string set"
  fetched :: "nat list"

text \<open>The loop of lines 58 to 113, from \<^verbatim>\<open>pageNum\<close> on.\<close>

function walk :: "(nat \<Rightarrow> page_load) \<Rightarrow> nat \<Rightarrow> nat \<Rightarrow> walk_state \<Rightarrow> walk_state" where
  "walk listing maxPages pageNum st =
     (if pageNum \<le> maxPages
      then
        (case listing pageNum of
           LoadFails \<Rightarrow>
             walk listing maxPages (pageNum + 1) (st \<lparr> fetched := fetched st @ [pageNum] \<rparr>)
         | Anchors hrefs \<Rightarrow>
             (let links = filter startsWith_http hrefs;
                  newUniqueLinks = filter (\<lambda>link. link \<notin> allUniqueUrls st) links;
                  st' = \<lparr> allPages =
                            (if length newUniqueLinks > 0
                             then allPages st @ [(newUniqueLinks, pageNum)]
                             else allPages st),
                          allUniqueUrls = allUniqueUrls st \<union> set newUniqueLinks,
                          fetched = fetched st @ [pageNum] \<rparr>
              in if length links = 0 then st'
                 else walk listing maxPages (pageNum + 1) st'))
      else st)"
  by pat_completeness auto
termination
  by (relation "measure (\<lambda>(listing, maxPages, pageNum, st). Suc maxPages - pageNum)") auto

declare walk.simps [simp del]

definition discover :: "(nat \<Rightarrow> page_load) \<Rightarrow> nat \<Rightarrow> walk_state" where
  "discover listing maxPages =
     walk listing maxPages 1 \<lparr> allPages = [], allUniqueUrls = {}, fetched = [] \<rparr>"

definition getDoctorLinksWithPagination ::
  "(nat \<Rightarrow> page_load) \<Rightarrow> nat \<Rightarrow> (string list \<times> nat) list" where
  "getDoctorLinksWithPagination listing maxPages = allPages (discover listing maxPages)"

subsection \<open>scrapeMultipleDoctors\<close>

text \<open>\<^verbatim>\<open>error instanceof Error ? error.message : "Unknown error"\<close> (line 202).\<close>

fun scrape_error_text :: "thrown \<Rightarrow> string" where
  "scrape_error_text (ErrorInst m) = m"
| "scrape_error_text (NonError s) = ''Unknown error''"

text \<open>
  The callback of lines 178 to 206 past its skip test, for a url and what
  \<^verbatim>\<open>scrapeDoctorInfo\<close> did on it (\<open>Inl\<close>: it threw). The site is not part of the program:
  what \<^verbatim>\<open>scrapeDoctorInfo\<close> does on a url is a parameter.
\<close>

definition scrape_one :: "(string \<Rightarrow> thrown + DoctorInfo) \<Rightarrow> nat \<Rightarrow> string \<Rightarrow> DoctorResult" where
  "scrape_one scrapeDoctorInfo pageNo link =
     (case scrapeDoctorInfo link of
        Inr info \<Rightarrow>
          \<lparr> doctor_url = link, data = Some info, scrape_error = None, pageNumber = Some pageNo \<rparr>
      | Inl err \<Rightarrow>
          \<lparr> doctor_url = link, data = None, scrape_error = Some (scrape_error_text err),
            pageNumber = Some pageNo \<rparr>)"

text \<open>
  \<^verbatim>\<open>results\<close>, \<^verbatim>\<open>scrapedUrls\<close>, and the urls handed to \<^verbatim>\<open>scrapeDoctorInfo\<close>, in the order
  of the links.
\<close>

record scrape_state =
  scrape_results :: "DoctorResult list"
  scrapedUrls :: "string set"
  attempted :: "string list"

text \<open>
  One batch (lines 178 to 209). \<^verbatim>\<open>batch.map\<close> runs every callback up to its first
  \<^verbatim>\<open>await\<close>, so each skip test reads \<^verbatim>\<open>scrapedUrls\<close> as it was before the batch;
  \<^verbatim>\<open>Promise.all\<close> keeps the order of the batch, and the skipped entries (\<^verbatim>\<open>null\<close>) are
  filtered out. Every url that was not skipped is in \<^verbatim>\<open>scrapedUrls\<close> afterwards, scraped
  or failed.
\<close>

definition run_batch ::
  "(string \<Rightarrow> thrown + DoctorInfo) \<Rightarrow> nat \<Rightarrow> string list \<Rightarrow> scrape_state \<Rightarrow> scrape_state" where
  "run_batch scrapeDoctorInfo pageNo batch st =
     (let batchResults =
            map (\<lambda>link. if link \<in> scrapedUrls st then None
                        else Some (scrape_one scrapeDoctorInfo pageNo link)) batch
      in \<lparr> scrape_results =
             scrape_results st @ map the (filter (\<lambda>r. r \<noteq> None) batchResults),
           scrapedUrls = scrapedUrls st \<union> {link \<in> set batch. link \<notin> scrapedUrls st},
           attempted = attempted st @ filter (\<lambda>link. link \<notin> scrapedUrls st) batch \<rparr>)"

text \<open>
  The loop of lines 169 to 215 from index \<open>i\<close> on:
  \<^verbatim>\<open>for (let i = 0; i < links.length; i += concurrency)\<close>. With \<^verbatim>\<open>concurrency\<close> zero and a
  link left, \<open>i\<close> never moves and the loop does not end: the result is \<open>None\<close>.
\<close>

partial_function (option) batch_loop ::
  "(string \<Rightarrow> thrown + DoctorInfo) \<Rightarrow> nat \<Rightarrow> nat \<Rightarrow> string list \<Rightarrow> nat \<Rightarrow> scrape_state \<Rightarrow>
   scrape_state option" where
  "batch_loop scrapeDoctorInfo concurrency pageNo links i st =
     (if i < length links
      then batch_loop scrapeDoctorInfo concurrency pageNo links (i + concurrency)
             (run_batch scrapeDoctorInfo pageNo (take concurrency (drop i links)) st)
      else Some st)"

text \<open>\<^verbatim>\<open>for (const pageData of allPages)\<close> (lines 160 to 216).\<close>

fun pages_loop ::
  "(string \<Rightarrow> thrown + DoctorInfo) \<Rightarrow> nat \<Rightarrow> (string list \<times> nat) list \<Rightarrow> scrape_state \<Rightarrow>
   scrape_state option" where
  "pages_loop scrapeDoctorInfo concurrency [] st = Some st"
| "pages_loop scrapeDoctorInfo concurrency ((links, pageNo) # pages) st =
     (case batch_loop scrapeDoctorInfo concurrency pageNo links 0 st of
        None \<Rightarrow> None
      | Some st' \<Rightarrow> pages_loop scrapeDoctorInfo concurrency pages st')"

text \<open>
  \<^verbatim>\<open>scrapeMultipleDoctors(listPageUrl, concurrency, maxPages)\<close> with the browser launched:
  \<open>scrape_session\<close> is the state it ends in, \<open>scrapeMultipleDoctors\<close> the array it returns.
\<close>

definition scrape_session ::
  "(nat \<Rightarrow> page_load) \<Rightarrow> (string \<Rightarrow> thrown + DoctorInfo) \<Rightarrow> nat \<Rightarrow> nat \<Rightarrow> scrape_state option" where
  "scrape_session listing scrapeDoctorInfo concurrency maxPages =
     (let pages = getDoctorLinksWithPagination listing maxPages
      in if length pages = 0
         then Some \<lparr> scrape_results = [], scrapedUrls = {}, attempted = [] \<rparr>
         else pages_loop scrapeDoctorInfo concurrency pages
                \<lparr> scrape_results = [], scrapedUrls = {}, attempted = [] \<rparr>)"

definition scrapeMultipleDoctors ::
  "(nat \<Rightarrow> page_load) \<Rightarrow> (string \<Rightarrow> thrown + DoctorInfo) \<Rightarrow> nat \<Rightarrow> nat \<Rightarrow>
   DoctorResult list option" where
  "scrapeMultipleDoctors listing scrapeDoctorInfo concurrency maxPages =
     map_option scrape_results (scrape_session listing scrapeDoctorInfo concurrency maxPages)"

subsection \<open>main (part_003)\<close>

text \<open>
  What a run of the script does to the outside: the urls it scraped and the snapshots it
  wrote to \<^verbatim>\<open>doctor-results.json\<close>.
\<close>

record scrape_run =
  scraped :: "string list"
  file_writes :: "DoctorResult list list"

text \<open>
  \<^verbatim>\<open>main\<close> of part_003 (lines 17 to 83): \<^verbatim>\<open>concurrency = 12\<close>, \<^verbatim>\<open>maxPages = 10\<close>, one call of
  \<^verbatim>\<open>scrapeMultipleDoctors\<close>, one \<^verbatim>\<open>Bun.write\<close> of its result. The first argument is what
  \<^verbatim>\<open>doctor-results.json\<close> held when the script started (\<open>None\<close>: no file); no line of
  part_003 or part_005 reads that file, so the right-hand side does not mention it.
\<close>

definition main_scrape ::
  "DoctorResult list option \<Rightarrow> (nat \<Rightarrow> page_load) \<Rightarrow> (string \<Rightarrow> thrown + DoctorInfo) \<Rightarrow>
   scrape_run option" where
  "main_scrape previous listing scrapeDoctorInfo =
     (case scrape_session listing scrapeDoctorInfo 12 10 of
        None \<Rightarrow> None
      | Some st \<Rightarrow> Some \<lparr> scraped = attempted st, file_writes = [scrape_results st] \<rparr>)"

section \<open>The merge endpoint: src/unnamed/part_001\<close>

text \<open>
  A row of \<^verbatim>\<open>analysis_results.json\<close>: its \<^verbatim>\<open>url\<close> and the rest of its fields, which the
  endpoint copies (\<^verbatim>\<open>...therapist\<close>).
\<close>

record 'a TherapistRow =
  row_url :: string
  row_fields :: 'a

record 'a MergedRow = "'a TherapistRow" +
  merged_rating :: "real option"
  merged_reviewCount :: "real option"
  merged_avatar :: "string option"

text \<open>
  \<^verbatim>\<open>x || null\<close> on an optional number and on an optional string: \<open>None\<close> is
  \<^verbatim>\<open>undefined\<close> or \<^verbatim>\<open>null\<close> on the left and \<^verbatim>\<open>null\<close> on the right. The falsy numbers of a
  JSON file are zero, the falsy string is the empty one.
\<close>

definition number_or_null :: "real option \<Rightarrow> real option" where
  "number_or_null x = (case x of None \<Rightarrow> None | Some n \<Rightarrow> if n = 0 then None else Some n)"

definition string_or_null :: "string option \<Rightarrow> string option" where
  "string_or_null x = (case x of None \<Rightarrow> None | Some s \<Rightarrow> if s = [] then None else Some s)"

text \<open>
  \<^verbatim>\<open>new Map(doctorData.map((doc) => [doc.url, doc.data]))\<close>: a later entry replaces an
  earlier one of the same url.
\<close>

definition doctorMap :: "DoctorResult list \<Rightarrow> (string \<rightharpoonup> DoctorInfo option)" where
  "doctorMap doctorData = fold (\<lambda>doc m. m(doctor_url doc \<mapsto> data doc)) doctorData Map.empty"

text \<open>\<^verbatim>\<open>doctorMap.get(therapist.url)?.field\<close>: the field of the entry's data, if there is one.\<close>

definition doctor_field ::
  "(string \<rightharpoonup> DoctorInfo option) \<Rightarrow> string \<Rightarrow> (DoctorInfo \<Rightarrow> 'b option) \<Rightarrow> 'b option" where
  "doctor_field m u field =
     (case m u of None \<Rightarrow> None | Some None \<Rightarrow> None | Some (Some info) \<Rightarrow> field info)"

definition merge_row :: "(string \<rightharpoonup> DoctorInfo option) \<Rightarrow> 'a TherapistRow \<Rightarrow> 'a MergedRow" where
  "merge_row m therapist =
     \<lparr> row_url = row_url therapist, row_fields = row_fields therapist,
       merged_rating = number_or_null (doctor_field m (row_url therapist) rating),
       merged_reviewCount = number_or_null (doctor_field m (row_url therapist) reviewCount),
       merged_avatar = string_or_null (doctor_field m (row_url therapist) avatar) \<rparr>"

definition mergedData :: "'a TherapistRow list \<Rightarrow> DoctorResult list \<Rightarrow> 'a MergedRow list" where
  "mergedData analysisData doctorData = map (merge_row (doctorMap doctorData)) analysisData"

section \<open>Inputs of the scenarios\<close>

text \<open>A profile with the given url, for the scenarios the theorems below are run on.\<close>

definition profile_at :: "string \<Rightarrow> TherapistProfile" where
  "profile_at u =
     \<lparr> profile_url = u,
       profile_data = \<lparr> profile_name = u, profile_rating = 5, profile_reviewCount = 2,
                        profile_aboutText = ''about'', profile_extendedAbout = None \<rparr>,
       profile_pageNumber = 1 \<rparr>"



text \<open>A remote whose every reply is well-formed JSON with a score of 150.\<close>

definition out_of_range :: remote where
  "out_of_range p k =
     Candidate \<lparr> score = 150,
                 reasoning = \<lparr> summary = ''fine'', greenFlagsFound = [], redFlagsFound = [],
                               missingElements = None, unexpectedPositives = None \<rparr>,
                 confidence = High \<rparr>
               ''Number must be less than or equal to 100''"


text \<open>
  Listings for the discoverer. In the first, page 2 has no link at all (scenario A). In the
  second, page 2 repeats page 1 and every later page repeats page 3. In the third, the one
  page lists the same link twice.
\<close>

definition listing_with_empty_page :: "nat \<Rightarrow> page_load" where
  "listing_with_empty_page n =
     (if n = 1 then Anchors [''http://a'', ''http://b'']
      else if n = 2 then Anchors []
      else Anchors [''http://c''])"

definition listing_with_repeated_page :: "nat \<Rightarrow> page_load" where
  "listing_with_repeated_page n =
     (if n = 1 then Anchors [''http://a'']
      else if n = 2 then Anchors [''http://a'']
      else Anchors [''http://b''])"

definition listing_with_double_link :: "nat \<Rightarrow> page_load" where
  "listing_with_double_link n = Anchors [''http://a'', ''http://a'']"

text \<open>What \<^verbatim>\<open>scrapeDoctorInfo\<close> may give: a doctor's data, always, or an error on one url.\<close>

definition doctor_named :: "string \<Rightarrow> DoctorInfo" where
  "doctor_named n =
     \<lparr> name = n, rating = Some 5, reviewCount = Some 12, aboutText = ''about'',
       extendedAbout = None, avatar = None \<rparr>"

definition scrape_always :: "string \<Rightarrow> thrown + DoctorInfo" where
  "scrape_always link = Inr (doctor_named link)"



text \<open>Extracted data whose rating and review count are 0 and whose avatar is the empty string.\<close>

definition doctor_with_zeros :: DoctorInfo where
  "doctor_with_zeros =
     \<lparr> name = ''Z'', rating = Some 0, reviewCount = Some 0, aboutText = ''about'',
       extendedAbout = None, avatar = Some [] \<rparr>"

section \<open>Properties\<close>

subsection \<open>Scoring stage: retries\<close>

lemma analyzeTherapist_all_fail:
  assumes "\<And>k. retryCount \<le> k \<Longrightarrow> k \<le> MAX_RETRIES \<Longrightarrow> scoreTherapist (svc p k) = Inl (e k)"
    and "retryCount \<le> MAX_RETRIES"
  shows "analyzeTherapist svc p retryCount =
           (analysis_failed p (e MAX_RETRIES), Suc (MAX_RETRIES - retryCount))"
  using assms
proof (induction svc p retryCount rule: analyzeTherapist.induct)
  case (1 svc p retryCount)
  have here: "scoreTherapist (svc p retryCount) = Inl (e retryCount)"
    using "1.prems" by simp
  show ?case
  proof (cases "retryCount < MAX_RETRIES")
    case True
    have "analyzeTherapist svc p (retryCount + 1) =
            (analysis_failed p (e MAX_RETRIES), Suc (MAX_RETRIES - (retryCount + 1)))"
      using "1.IH" [OF here True] "1.prems" True by simp
    then show ?thesis
      using here True by (subst analyzeTherapist.simps) (simp add: Suc_diff_Suc)
  next
    case False
    then have "retryCount = MAX_RETRIES" using "1.prems" by simp
    then show ?thesis
      using here by (subst analyzeTherapist.simps) simp
  qed
qed



lemma analyzeTherapist_attempts:
  "1 \<le> snd (analyzeTherapist svc p k) \<and> snd (analyzeTherapist svc p k) \<le> Suc (MAX_RETRIES - k)"
proof (induction svc p k rule: analyzeTherapist.induct)
  case (1 svc p retryCount)
  show ?case
  proof (cases "scoreTherapist (svc p retryCount)")
    case (Inr s)
    then show ?thesis by (subst (1 2) analyzeTherapist.simps) auto
  next
    case (Inl e)
    show ?thesis
    proof (cases "retryCount < MAX_RETRIES")
      case True
      then show ?thesis
        using "1.IH" [OF Inl True] Inl
        by (subst (1 2) analyzeTherapist.simps) (auto split: prod.splits)
    next
      case False
      then show ?thesis
        using Inl by (subst (1 2) analyzeTherapist.simps) auto
    qed
  qed
qed

lemma concat_make_batches: "concat (make_batches xs i) = drop i xs"
proof (induction xs i rule: make_batches.induct)
  case (1 xs i)
  show ?case
  proof (cases "i < length xs")
    case True
    have "take BATCH_SIZE (drop i xs) @ drop (i + BATCH_SIZE) xs = drop i xs"
      by (metis add.commute append_take_drop_id drop_drop)
    then show ?thesis
      using "1.IH" [OF True] True by (subst make_batches.simps) simp
  next
    case False
    then show ?thesis by (subst make_batches.simps) simp
  qed
qed

lemma make_batches_sizes:
  "b \<in> set (make_batches xs i) \<Longrightarrow> 1 \<le> length b \<and> length b \<le> BATCH_SIZE"
proof (induction xs i rule: make_batches.induct)
  case (1 xs i)
  show ?case
  proof (cases "i < length xs")
    case True
    then show ?thesis
      using "1.IH" [OF True] "1.prems"
      by (subst (asm) make_batches.simps) (auto simp: BATCH_SIZE_def)
  next
    case False
    then show ?thesis using "1.prems" by (subst (asm) make_batches.simps) simp
  qed
qed





text \<open>
  C3, as the code has it. When every invocation of the remote operation for a work item
  fails, \<open>analyzeTherapist\<close> invokes it \<open>MAX_RETRIES + 1 = 4\<close> times and returns (it is a
  total function: nothing is thrown to the caller) the failure object for the last error:
  score 0, the last error's message in \<open>error\<close> and, after the words ANALYSIS FAILED, in the
  summary. The object has no field for the number of attempts.
\<close>

theorem analyzeTherapist_retry_exhaustion:
  assumes "\<And>k. k \<le> MAX_RETRIES \<Longrightarrow> scoreTherapist (svc p k) = Inl (e k)"
  shows "analyzeTherapist svc p 0 = (analysis_failed p (e MAX_RETRIES), MAX_RETRIES + 1)
         \<and> MAX_RETRIES + 1 = 4
         \<and> score (analysis_failed p (e MAX_RETRIES)) = 0
         \<and> confidence (analysis_failed p (e MAX_RETRIES)) = Low
         \<and> error (analysis_failed p (e MAX_RETRIES)) = Some (error_text (e MAX_RETRIES))
         \<and> summary (reasoning (analysis_failed p (e MAX_RETRIES))) =
             ''ANALYSIS FAILED: '' @ error_text (e MAX_RETRIES)"
  using analyzeTherapist_all_fail [of 0 svc p e] assms
  by (simp add: analysis_failed_def MAX_RETRIES_def)

text \<open>
  The theorem at work: three replies that are not JSON, then an empty one. Four
  invocations, and the failure carries the message of the fourth.
\<close>

theorem analyzeTherapist_retry_exhaustion_witness:
  "analyzeTherapist (\<lambda>p k. if k = 3 then EmptyText else NotJson ''bad'') (profile_at ''a'') 0 =
     (analysis_failed (profile_at ''a'') (ErrorInst ''Empty response from Gemini''), 4)"
proof -
  let ?svc = "\<lambda>(p::TherapistProfile) (k::nat).
                if k = 3 then EmptyText else (NotJson ''bad'' :: TherapistScore reply)"
  let ?e = "\<lambda>k::nat. if k = 3 then ErrorInst ''Empty response from Gemini''
                      else ErrorInst ''bad''"
  have h: "\<And>k. k \<le> MAX_RETRIES \<Longrightarrow> scoreTherapist (?svc (profile_at ''a'') k) = Inl (?e k)"
    by simp
  from analyzeTherapist_retry_exhaustion [of ?svc "profile_at ''a''" ?e, OF h]
  show ?thesis by (simp add: MAX_RETRIES_def)
qed

text \<open>
  C3 as stated fails on "embedding the attempt count consumed": the failure returned after
  four invocations (\<open>retryCount\<close> starting at 0) and the one returned after a single
  invocation (\<open>retryCount\<close> starting at 3) are the same object.
\<close>

theorem analyzeTherapist_no_attempt_count:
  "fst (analyzeTherapist (\<lambda>p k. Rejects (ErrorInst ''boom'')) (profile_at ''a'') 0) =
     fst (analyzeTherapist (\<lambda>p k. Rejects (ErrorInst ''boom'')) (profile_at ''a'') 3)
   \<and> snd (analyzeTherapist (\<lambda>p k. Rejects (ErrorInst ''boom'')) (profile_at ''a'') 0) = 4
   \<and> snd (analyzeTherapist (\<lambda>p k. Rejects (ErrorInst ''boom'')) (profile_at ''a'') 3) = 1"
  by (simp add: analyzeTherapist.simps MAX_RETRIES_def)

text \<open>Scenario C: the scoring call fails twice and succeeds on the third attempt.\<close>

lemma third_attempt_succeeds:
  "analyzeTherapist
     (\<lambda>p k. if k < 2 then Rejects (ErrorInst ''503'')
             else Candidate \<lparr> score = 80,
                    reasoning = \<lparr> summary = ''fits'', greenFlagsFound = [], redFlagsFound = [],
                                  missingElements = None, unexpectedPositives = None \<rparr>,
                    confidence = High \<rparr> [])
     (profile_at ''a'') 0 =
   (\<lparr> score = 80,
      reasoning = \<lparr> summary = ''fits'', greenFlagsFound = [], redFlagsFound = [],
                    missingElements = None, unexpectedPositives = None \<rparr>,
      confidence = High, url = ''a'', error = None \<rparr>, 3)"
  by (simp add: analyzeTherapist.simps MAX_RETRIES_def TherapistScoreSchema_parse_def
        analysis_ok_def profile_at_def)

subsection \<open>Scoring stage: the checkpointed run\<close>

lemma concat_make_batches_0: "concat (make_batches xs 0) = xs"
  by (simp add: concat_make_batches)


text \<open>
  Scenario B: the output file holds one record, for the url a, and the input holds the
  profiles a and b. Only b is sent to the scorer, and the final snapshot has two records.
\<close>

lemma only_the_new_profile_is_scored:
  "map (profile_url \<circ> fst)
     (scored (main (\<lambda>content. Some [analysis_failed (profile_at ''a'') (ErrorInst ''earlier'')])
                (Some ''stored'') [profile_at ''a'', profile_at ''b''] out_of_range)) = [''b'']
   \<and> map url
       (last (written (main (\<lambda>content. Some [analysis_failed (profile_at ''a'') (ErrorInst ''earlier'')])
                        (Some ''stored'') [profile_at ''a'', profile_at ''b''] out_of_range))) =
       [''a'', ''b'']"
  by (simp add: main_def load_results_def Let_def make_batches.simps BATCH_SIZE_def
        processBatch_def analyzeTherapist.simps out_of_range_def MAX_RETRIES_def
        TherapistScoreSchema_parse_def analysis_failed_def profile_at_def)



subsection \<open>Scoring stage: the records\<close>












subsection \<open>Extraction stage: the page walk\<close>

lemma walk_fetched:
  assumes "n \<le> Suc maxPages"
  shows "\<exists>m. fetched (walk listing maxPages n st) = fetched st @ [n..<m]
             \<and> n \<le> m \<and> m \<le> Suc maxPages
             \<and> (\<forall>k hrefs. n \<le> k \<and> Suc k < m \<and> listing k = Anchors hrefs
                   \<longrightarrow> filter startsWith_http hrefs \<noteq> [])
             \<and> (m \<le> maxPages \<longrightarrow>
                   n < m \<and> (\<exists>hrefs. listing (m - 1) = Anchors hrefs
                                   \<and> filter startsWith_http hrefs = []))"
  using assms
proof (induction listing maxPages n st rule: walk.induct)
  case (1 listing maxPages pageNum st)
  show ?case
  proof (cases "pageNum \<le> maxPages")
    case False
    then have "walk listing maxPages pageNum st = st"
      by (subst walk.simps) simp
    moreover have "pageNum = Suc maxPages" using False "1.prems" by simp
    ultimately show ?thesis by (intro exI [of _ pageNum]) auto
  next
    case True
    show ?thesis
    proof (cases "listing pageNum")
      case LoadFails
      let ?st = "st \<lparr> fetched := fetched st @ [pageNum] \<rparr>"
      have w: "walk listing maxPages pageNum st = walk listing maxPages (pageNum + 1) ?st"
        using True LoadFails by (subst walk.simps) simp
      from "1.IH"(1) [OF True LoadFails] True
      obtain m where m: "fetched (walk listing maxPages (pageNum + 1) ?st) = fetched ?st @ [pageNum + 1..<m]"
        "pageNum + 1 \<le> m" "m \<le> Suc maxPages"
        "\<forall>k hrefs. pageNum + 1 \<le> k \<and> Suc k < m \<and> listing k = Anchors hrefs
                   \<longrightarrow> filter startsWith_http hrefs \<noteq> []"
        "m \<le> maxPages \<longrightarrow> pageNum + 1 < m \<and> (\<exists>hrefs. listing (m - 1) = Anchors hrefs
                                   \<and> filter startsWith_http hrefs = [])"
        by auto
      have "fetched (walk listing maxPages pageNum st) = fetched st @ [pageNum..<m]"
        using m(1,2) w by (simp add: upt_conv_Cons)
      moreover have "\<forall>k hrefs. pageNum \<le> k \<and> Suc k < m \<and> listing k = Anchors hrefs
                   \<longrightarrow> filter startsWith_http hrefs \<noteq> []"
        using m(4) LoadFails by (metis Suc_eq_plus1 Suc_leI le_neq_implies_less page_load.distinct(1))
      ultimately show ?thesis using m(2,3,5) by (intro exI [of _ m]) auto
    next
      case (Anchors hrefs)
      let ?links = "filter startsWith_http hrefs"
      let ?new = "filter (\<lambda>link. link \<notin> allUniqueUrls st) ?links"
      let ?st = "\<lparr> allPages = (if length ?new > 0 then allPages st @ [(?new, pageNum)] else allPages st),
                   allUniqueUrls = allUniqueUrls st \<union> set ?new,
                   fetched = fetched st @ [pageNum] \<rparr>"
      show ?thesis
      proof (cases "length ?links = 0")
        case zero: True
        have w: "walk listing maxPages pageNum st = ?st"
          using True Anchors zero by (subst walk.simps) (simp add: Let_def)
        show ?thesis
          using w True Anchors zero by (intro exI [of _ "Suc pageNum"]) auto
      next
        case nonzero: False
        have w: "walk listing maxPages pageNum st = walk listing maxPages (pageNum + 1) ?st"
          using True Anchors nonzero by (subst walk.simps) (simp add: Let_def)
        from "1.IH"(2) [OF True Anchors refl refl refl nonzero] True
        obtain m where m: "fetched (walk listing maxPages (pageNum + 1) ?st) = fetched ?st @ [pageNum + 1..<m]"
          "pageNum + 1 \<le> m" "m \<le> Suc maxPages"
          "\<forall>k hrefs. pageNum + 1 \<le> k \<and> Suc k < m \<and> listing k = Anchors hrefs
                   \<longrightarrow> filter startsWith_http hrefs \<noteq> []"
          "m \<le> maxPages \<longrightarrow> pageNum + 1 < m \<and> (\<exists>hrefs. listing (m - 1) = Anchors hrefs
                                   \<and> filter startsWith_http hrefs = [])"
          by auto
        have "fetched (walk listing maxPages pageNum st) = fetched st @ [pageNum..<m]"
          using m(1,2) w by (simp add: upt_conv_Cons)
        moreover have "\<forall>k hs. pageNum \<le> k \<and> Suc k < m \<and> listing k = Anchors hs
                   \<longrightarrow> filter startsWith_http hs \<noteq> []"
        proof (intro allI impI)
          fix k hs
          assume a: "pageNum \<le> k \<and> Suc k < m \<and> listing k = Anchors hs"
          show "filter startsWith_http hs \<noteq> []"
          proof (cases "k = pageNum")
            case True
            then show ?thesis using a Anchors nonzero by simp
          next
            case False
            then have "pageNum + 1 \<le> k" using a by simp
            then show ?thesis using a m(4) by blast
          qed
        qed
        ultimately show ?thesis using m(2,3,5) by (intro exI [of _ m]) auto
      qed
    qed
  qed
qed

lemmas eval_walk = discover_def walk.simps Let_def startsWith_http_def

text \<open>
  C6. The pages fetched are 1 up to some page \<open>m\<close> within the cap. Once a fetched page yields
  no link at all (the count before deduplication is zero), no later page is fetched. A
  fetched page below the cap that yields at least one link is followed by the next page,
  whether or not any of its links is new.
\<close>

theorem walk_stops_at_empty_page:
  fixes listing maxPages
  defines "visited \<equiv> fetched (discover listing maxPages)"
  shows "(\<exists>m \<le> maxPages. visited = [1..<Suc m])
       \<and> (\<forall>k hrefs. k \<in> set visited \<and> listing k = Anchors hrefs
                   \<and> length (filter startsWith_http hrefs) = 0
             \<longrightarrow> (\<forall>j \<in> set visited. j \<le> k))
       \<and> (\<forall>k hrefs. k \<in> set visited \<and> k < maxPages \<and> listing k = Anchors hrefs
                   \<and> length (filter startsWith_http hrefs) > 0
             \<longrightarrow> Suc k \<in> set visited)"
proof -
  let ?st = "\<lparr> allPages = [], allUniqueUrls = {}, fetched = [] \<rparr>"
  have "1 \<le> Suc maxPages" by simp
  from walk_fetched [OF this, of listing ?st]
  obtain m where m: "visited = [1..<m]" "1 \<le> m" "m \<le> Suc maxPages"
    "\<forall>k hrefs. 1 \<le> k \<and> Suc k < m \<and> listing k = Anchors hrefs
                   \<longrightarrow> filter startsWith_http hrefs \<noteq> []"
    "m \<le> maxPages \<longrightarrow> 1 < m \<and> (\<exists>hrefs. listing (m - 1) = Anchors hrefs
                                   \<and> filter startsWith_http hrefs = [])"
    unfolding visited_def discover_def by auto
  have a: "\<exists>m \<le> maxPages. visited = [1..<Suc m]"
    using m(1,2,3) by (intro exI [of _ "m - 1"]) auto
  have b: "\<forall>k hrefs. k \<in> set visited \<and> listing k = Anchors hrefs
                   \<and> length (filter startsWith_http hrefs) = 0
             \<longrightarrow> (\<forall>j \<in> set visited. j \<le> k)"
  proof (intro allI impI ballI)
    fix k hrefs j
    assume k: "k \<in> set visited \<and> listing k = Anchors hrefs
                   \<and> length (filter startsWith_http hrefs) = 0"
      and j: "j \<in> set visited"
    have "\<not> Suc k < m" using k m(1,4) by auto
    then show "j \<le> k" using j m(1) by auto
  qed
  have c: "\<forall>k hrefs. k \<in> set visited \<and> k < maxPages \<and> listing k = Anchors hrefs
                   \<and> length (filter startsWith_http hrefs) > 0
             \<longrightarrow> Suc k \<in> set visited"
  proof (intro allI impI)
    fix k hrefs
    assume k: "k \<in> set visited \<and> k < maxPages \<and> listing k = Anchors hrefs
                   \<and> length (filter startsWith_http hrefs) > 0"
    have "Suc k < m"
    proof (rule ccontr)
      assume "\<not> Suc k < m"
      then have "m = Suc k" using k m(1) by auto
      then show False using k m(5) by auto
    qed
    then show "Suc k \<in> set visited" using m(1) by auto
  qed
  show ?thesis using a b c by (intro conjI)
qed

text \<open>
  Scenario A: page 2 of three has no link, and page 3 is not fetched. And a listing whose
  page 2 only repeats page 1: no group is emitted for page 2, and page 3 is fetched.
\<close>

theorem walk_stops_at_empty_page_witness:
  "2 \<in> set (fetched (discover listing_with_empty_page 3))
   \<and> listing_with_empty_page 2 = Anchors []
   \<and> 3 \<notin> set (fetched (discover listing_with_empty_page 3))
   \<and> 2 \<in> set (fetched (discover listing_with_repeated_page 3))
   \<and> listing_with_repeated_page 2 = listing_with_repeated_page 1
   \<and> getDoctorLinksWithPagination listing_with_repeated_page 3 =
        [([''http://a''], 1), ([''http://b''], 3)]
   \<and> 3 \<in> set (fetched (discover listing_with_repeated_page 3))"
proof -
  have a2: "2 \<in> set (fetched (discover listing_with_empty_page 3))"
    by (simp add: eval_walk listing_with_empty_page_def)
  have a0: "listing_with_empty_page 2 = Anchors []"
    by (simp add: listing_with_empty_page_def)
  have "\<forall>j \<in> set (fetched (discover listing_with_empty_page 3)). j \<le> 2"
    using walk_stops_at_empty_page [where listing = listing_with_empty_page and maxPages = 3,
                      THEN conjunct2, THEN conjunct1, rule_format,
                      where k = 2 and hrefs = "[]"] a2 a0
    by simp
  then have a3: "3 \<notin> set (fetched (discover listing_with_empty_page 3))"
    by auto
  have b2: "2 \<in> set (fetched (discover listing_with_repeated_page 3))"
    by (simp add: eval_walk listing_with_repeated_page_def)
  have b0: "listing_with_repeated_page 2 = Anchors [''http://a'']"
    by (simp add: listing_with_repeated_page_def)
  have b1: "listing_with_repeated_page 2 = listing_with_repeated_page 1"
    by (simp add: listing_with_repeated_page_def)
  have bp: "getDoctorLinksWithPagination listing_with_repeated_page 3 =
        [([''http://a''], 1), ([''http://b''], 3)]"
    by (simp add: getDoctorLinksWithPagination_def eval_walk listing_with_repeated_page_def)
  have b3: "3 \<in> set (fetched (discover listing_with_repeated_page 3))"
    using walk_stops_at_empty_page [where listing = listing_with_repeated_page and maxPages = 3,
                      THEN conjunct2, THEN conjunct2, rule_format,
                      where k = 2 and hrefs = "[''http://a'']"] b2 b0
    by (simp add: startsWith_http_def)
  show ?thesis using a2 a0 a3 b2 b1 bp b3 by (intro conjI)
qed

text \<open>
  C5, at the input where the code departs from it: a page that lists the same link twice.
  The filter of line 85 tests each link against \<^verbatim>\<open>allUniqueUrls\<close> as it was before the page,
  so both copies pass, and the emitted group holds the link twice.
\<close>

theorem discoverer_keeps_double_link:
  "getDoctorLinksWithPagination listing_with_double_link 1 = [([''http://a'', ''http://a''], 1)]
   \<and> \<not> distinct (concat (map fst (getDoctorLinksWithPagination listing_with_double_link 1)))"
  by (simp add: getDoctorLinksWithPagination_def eval_walk listing_with_double_link_def)

text \<open>The links of a state's groups, and the raw links of the pages it fetched.\<close>

lemma walk_links:
  assumes "set (concat (map fst (allPages st))) = allUniqueUrls st"
    and "allUniqueUrls st =
           (\<Union>k \<in> set (fetched st). case listing k of
                LoadFails \<Rightarrow> {} | Anchors hrefs \<Rightarrow> set (filter startsWith_http hrefs))"
  shows "set (concat (map fst (allPages (walk listing maxPages n st)))) =
           allUniqueUrls (walk listing maxPages n st)
       \<and> allUniqueUrls (walk listing maxPages n st) =
           (\<Union>k \<in> set (fetched (walk listing maxPages n st)). case listing k of
                LoadFails \<Rightarrow> {} | Anchors hrefs \<Rightarrow> set (filter startsWith_http hrefs))"
  using assms
proof (induction listing maxPages n st rule: walk.induct)
  case (1 listing maxPages pageNum st)
  show ?case
  proof (cases "pageNum \<le> maxPages")
    case False
    then have "walk listing maxPages pageNum st = st"
      by (subst walk.simps) simp
    then show ?thesis using "1.prems" by simp
  next
    case True
    show ?thesis
    proof (cases "listing pageNum")
      case LoadFails
      let ?st = "st \<lparr> fetched := fetched st @ [pageNum] \<rparr>"
      have w: "walk listing maxPages pageNum st = walk listing maxPages (pageNum + 1) ?st"
        using True LoadFails by (subst walk.simps) simp
      have a: "set (concat (map fst (allPages ?st))) = allUniqueUrls ?st"
        using "1.prems"(1) by simp
      have b: "allUniqueUrls ?st =
           (\<Union>k \<in> set (fetched ?st). case listing k of
                LoadFails \<Rightarrow> {} | Anchors hrefs \<Rightarrow> set (filter startsWith_http hrefs))"
        using "1.prems"(2) LoadFails by simp
      from "1.IH"(1) [OF True LoadFails a b] show ?thesis unfolding w .
    next
      case (Anchors hrefs)
      let ?links = "filter startsWith_http hrefs"
      let ?new = "filter (\<lambda>link. link \<notin> allUniqueUrls st) ?links"
      let ?st = "\<lparr> allPages = (if length ?new > 0 then allPages st @ [(?new, pageNum)] else allPages st),
                   allUniqueUrls = allUniqueUrls st \<union> set ?new,
                   fetched = fetched st @ [pageNum] \<rparr>"
      have a: "set (concat (map fst (allPages ?st))) = allUniqueUrls ?st"
      proof (cases "?new = []")
        case True
        then show ?thesis using "1.prems"(1) by simp
      next
        case False
        then show ?thesis using "1.prems"(1) by simp
      qed
      have b: "allUniqueUrls ?st =
           (\<Union>k \<in> set (fetched ?st). case listing k of
                LoadFails \<Rightarrow> {} | Anchors hrefs \<Rightarrow> set (filter startsWith_http hrefs))"
        using "1.prems"(2) Anchors by auto
      show ?thesis
      proof (cases "length ?links = 0")
        case zero: True
        have w: "walk listing maxPages pageNum st = ?st"
          using True Anchors zero by (subst walk.simps) (simp add: Let_def)
        show ?thesis unfolding w using a b by blast
      next
        case nonzero: False
        have w: "walk listing maxPages pageNum st = walk listing maxPages (pageNum + 1) ?st"
          using True Anchors nonzero by (subst walk.simps) (simp add: Let_def)
        from "1.IH"(2) [OF True Anchors refl refl refl nonzero a b]
        show ?thesis unfolding w .
      qed
    qed
  qed
qed

lemma walk_distinct:
  assumes "\<And>k hrefs. listing k = Anchors hrefs \<Longrightarrow> distinct (filter startsWith_http hrefs)"
    and "distinct (concat (map fst (allPages st)))"
    and "set (concat (map fst (allPages st))) = allUniqueUrls st"
  shows "distinct (concat (map fst (allPages (walk listing maxPages n st))))"
  using assms
proof (induction listing maxPages n st rule: walk.induct)
  case (1 listing maxPages pageNum st)
  show ?case
  proof (cases "pageNum \<le> maxPages")
    case False
    then have "walk listing maxPages pageNum st = st"
      by (subst walk.simps) simp
    then show ?thesis using "1.prems" by simp
  next
    case True
    show ?thesis
    proof (cases "listing pageNum")
      case LoadFails
      let ?st = "st \<lparr> fetched := fetched st @ [pageNum] \<rparr>"
      have w: "walk listing maxPages pageNum st = walk listing maxPages (pageNum + 1) ?st"
        using True LoadFails by (subst walk.simps) simp
      have "distinct (concat (map fst (allPages (walk listing maxPages (pageNum + 1) ?st))))"
        using "1.prems" by (intro "1.IH"(1) [OF True LoadFails]) simp_all
      then show ?thesis unfolding w .
    next
      case (Anchors hrefs)
      let ?links = "filter startsWith_http hrefs"
      let ?new = "filter (\<lambda>link. link \<notin> allUniqueUrls st) ?links"
      let ?st = "\<lparr> allPages = (if length ?new > 0 then allPages st @ [(?new, pageNum)] else allPages st),
                   allUniqueUrls = allUniqueUrls st \<union> set ?new,
                   fetched = fetched st @ [pageNum] \<rparr>"
      have dl: "distinct ?new"
        using "1.prems"(1) [OF Anchors] by (rule distinct_filter)
      have a: "distinct (concat (map fst (allPages ?st)))"
        using "1.prems"(2,3) dl by auto
      have b: "set (concat (map fst (allPages ?st))) = allUniqueUrls ?st"
      proof (cases "?new = []")
        case True
        then show ?thesis using "1.prems"(3) by simp
      next
        case False
        then show ?thesis using "1.prems"(3) by simp
      qed
      show ?thesis
      proof (cases "length ?links = 0")
        case zero: True
        have w: "walk listing maxPages pageNum st = ?st"
          using True Anchors zero by (subst walk.simps) (simp add: Let_def)
        show ?thesis unfolding w using a .
      next
        case nonzero: False
        have w: "walk listing maxPages pageNum st = walk listing maxPages (pageNum + 1) ?st"
          using True Anchors nonzero by (subst walk.simps) (simp add: Let_def)
        have "distinct (concat (map fst (allPages (walk listing maxPages (pageNum + 1) ?st))))"
          using "1.prems"(1) a b
          by (intro "1.IH"(2) [OF True Anchors refl refl refl nonzero])
        then show ?thesis unfolding w .
      qed
    qed
  qed
qed

text \<open>
  What holds of C5 on the code: the links emitted are, as a set, the links of the pages
  fetched; and they are pairwise distinct, across all groups, as soon as no single page
  lists a link twice.
\<close>

lemma discoverer_emits_union:
  "set (concat (map fst (getDoctorLinksWithPagination listing maxPages))) =
     (\<Union>k \<in> set (fetched (discover listing maxPages)). case listing k of
          LoadFails \<Rightarrow> {} | Anchors hrefs \<Rightarrow> set (filter startsWith_http hrefs))"
  using walk_links [of "\<lparr> allPages = [], allUniqueUrls = {}, fetched = [] \<rparr>" listing maxPages 1]
  by (simp add: getDoctorLinksWithPagination_def discover_def)

lemma discoverer_distinct_across_pages:
  assumes "\<And>k hrefs. listing k = Anchors hrefs \<Longrightarrow> distinct (filter startsWith_http hrefs)"
  shows "distinct (concat (map fst (getDoctorLinksWithPagination listing maxPages)))"
  using walk_distinct [of listing "\<lparr> allPages = [], allUniqueUrls = {}, fetched = [] \<rparr>" maxPages 1] assms
  by (simp add: getDoctorLinksWithPagination_def discover_def)

subsection \<open>Extraction stage: the batches\<close>



text \<open>Without the assumption on the links: the loop ends, and which urls it covers.\<close>

lemma run_batch_sets:
  "scrapedUrls (run_batch scrape pageNo batch st) = scrapedUrls st \<union> set batch
   \<and> set (attempted (run_batch scrape pageNo batch st)) =
       set (attempted st) \<union> (set batch - scrapedUrls st)"
  by (auto simp: run_batch_def Let_def)

lemma batch_loop_ends:
  assumes "0 < concurrency"
  shows "\<exists>st'. batch_loop scrape concurrency pageNo links i st = Some st'
           \<and> scrapedUrls st' = scrapedUrls st \<union> set (drop i links)
           \<and> set (attempted st') = set (attempted st) \<union> (set (drop i links) - scrapedUrls st)"
  using assms
proof (induction "length links - i" arbitrary: i st rule: less_induct)
  case less
  show ?case
  proof (cases "i < length links")
    case False
    then show ?thesis by (subst batch_loop.simps) simp
  next
    case True
    let ?batch = "take concurrency (drop i links)"
    let ?rest = "drop (i + concurrency) links"
    let ?st = "run_batch scrape pageNo ?batch st"
    have split: "drop i links = ?batch @ ?rest"
      by (metis add.commute append_take_drop_id drop_drop)
    have "length links - (i + concurrency) < length links - i"
      using True less.prems(1) by simp
    from less.hyps [OF this less.prems(1), of ?st]
    obtain st' where st': "batch_loop scrape concurrency pageNo links (i + concurrency) ?st = Some st'"
      "scrapedUrls st' = scrapedUrls ?st \<union> set ?rest"
      "set (attempted st') = set (attempted ?st) \<union> (set ?rest - scrapedUrls ?st)"
      by blast
    have s: "set (drop i links) = set ?batch \<union> set ?rest"
      by (subst split) simp
    have "batch_loop scrape concurrency pageNo links i st = Some st'"
      using True st'(1) by (subst batch_loop.simps) simp
    moreover have "scrapedUrls st' = scrapedUrls st \<union> set (drop i links)"
      using st'(2) run_batch_sets [of scrape pageNo ?batch st] s by auto
    moreover have "set (attempted st') = set (attempted st) \<union> (set (drop i links) - scrapedUrls st)"
      using st'(3) run_batch_sets [of scrape pageNo ?batch st] s by auto
    ultimately show ?thesis by blast
  qed
qed

text \<open>
  With \<^verbatim>\<open>concurrency\<close> zero and a link left the loop never returns; with a positive
  \<^verbatim>\<open>concurrency\<close> it always does (\<open>batch_loop_ends\<close>).
\<close>

lemma batch_loop_returns_positive:
  assumes "batch_loop scrape concurrency pageNo links i st = Some st'"
  shows "\<not> (concurrency = 0 \<and> i < length links)"
proof (rule batch_loop.raw_induct
         [where P = "\<lambda>scrape c pageNo links i st st'. \<not> (c = 0 \<and> i < length links)",
          OF _ assms])
  fix f :: "(string \<Rightarrow> thrown + DoctorInfo) \<Rightarrow> nat \<Rightarrow> nat \<Rightarrow> string list \<Rightarrow> nat \<Rightarrow> scrape_state
            \<Rightarrow> scrape_state option"
  fix s c p l j t t'
  assume IH: "\<And>s c p l j t t'. f s c p l j t = Some t' \<Longrightarrow> \<not> (c = 0 \<and> j < length l)"
    and eq: "(if j < length l
              then f s c p l (j + c) (run_batch s p (take c (drop j l)) t)
              else Some t) = Some t'"
  show "\<not> (c = 0 \<and> j < length l)"
  proof
    assume z: "c = 0 \<and> j < length l"
    then have "f s c p l (j + c) (run_batch s p (take c (drop j l)) t) = Some t'"
      using eq by simp
    from IH [OF this] z show False by simp
  qed
qed

lemma batch_loop_zero_never_returns:
  "i < length links \<Longrightarrow> batch_loop scrape 0 pageNo links i st = None"
  using batch_loop_returns_positive [of scrape 0 pageNo links i st]
  by (cases "batch_loop scrape 0 pageNo links i st") auto


lemma pages_loop_ends:
  assumes "0 < concurrency"
  shows "\<exists>st'. pages_loop scrape concurrency pages st = Some st'
           \<and> scrapedUrls st' = scrapedUrls st \<union> set (concat (map fst pages))
           \<and> set (attempted st') =
               set (attempted st) \<union> (set (concat (map fst pages)) - scrapedUrls st)"
proof (induction pages arbitrary: st)
  case Nil
  then show ?case by simp
next
  case (Cons pg pages)
  obtain links pageNo where pg: "pg = (links, pageNo)" by (cases pg)
  from batch_loop_ends [OF assms, of scrape pageNo links 0 st]
  obtain st1 where st1: "batch_loop scrape concurrency pageNo links 0 st = Some st1"
    "scrapedUrls st1 = scrapedUrls st \<union> set links"
    "set (attempted st1) = set (attempted st) \<union> (set links - scrapedUrls st)"
    by auto
  from Cons.IH [of st1]
  obtain st' where st': "pages_loop scrape concurrency pages st1 = Some st'"
    "scrapedUrls st' = scrapedUrls st1 \<union> set (concat (map fst pages))"
    "set (attempted st') = set (attempted st1) \<union> (set (concat (map fst pages)) - scrapedUrls st1)"
    by blast
  have "pages_loop scrape concurrency (pg # pages) st = Some st'"
    using st1(1) st'(1) pg by simp
  moreover have "scrapedUrls st' = scrapedUrls st \<union> set (concat (map fst (pg # pages)))"
    using st1(2) st'(2) pg by auto
  moreover have "set (attempted st') =
               set (attempted st) \<union> (set (concat (map fst (pg # pages))) - scrapedUrls st)"
    using st1(2,3) st'(3) pg by auto
  ultimately show ?case by blast
qed


lemma scrape_session_ends:
  assumes "0 < concurrency"
  shows "\<exists>st. scrape_session listing scrape concurrency maxPages = Some st
           \<and> set (attempted st) = set (concat (map fst (getDoctorLinksWithPagination listing maxPages)))"
proof (cases "getDoctorLinksWithPagination listing maxPages = []")
  case True
  then show ?thesis by (simp add: scrape_session_def)
next
  case False
  let ?st = "\<lparr> scrape_results = [], scrapedUrls = {}, attempted = [] \<rparr>"
  from pages_loop_ends [OF assms, of scrape "getDoctorLinksWithPagination listing maxPages" ?st]
  show ?thesis using False by (auto simp: scrape_session_def Let_def)
qed




lemmas eval_scrape = main_scrape_def scrape_session_def getDoctorLinksWithPagination_def
  eval_walk batch_loop.simps run_batch_def scrape_one_def




text \<open>
  The link listed twice on one page (C5) reaches the batch as two work items: both pass
  the skip test, which reads \<^verbatim>\<open>scrapedUrls\<close> before either is scraped, and the url gets
  two records.
\<close>

lemma double_link_scraped_twice:
  "map doctor_url (the (scrapeMultipleDoctors listing_with_double_link scrape_always 5 1)) =
     [''http://a'', ''http://a'']"
  by (simp add: scrapeMultipleDoctors_def eval_scrape listing_with_double_link_def scrape_always_def)

(* C10 *)

subsection \<open>Extraction stage: persistence\<close>

text \<open>
  C2, as the code has it. Whatever \<^verbatim>\<open>doctor-results.json\<close> held before, the run is the run
  without that file: every link discovered is scraped, and the file is written once, with
  the whole result, after the last batch.
\<close>

theorem extraction_writes_once_without_loading:
  "\<exists>run results.
      main_scrape previous listing scrape = Some run
    \<and> main_scrape None listing scrape = Some run
    \<and> scrapeMultipleDoctors listing scrape 12 10 = Some results
    \<and> file_writes run = [results]
    \<and> set (scraped run) = set (concat (map fst (getDoctorLinksWithPagination listing 10)))"
proof -
  have "(0::nat) < 12" by simp
  from scrape_session_ends [OF this, of listing scrape 10]
  obtain st where st: "scrape_session listing scrape 12 10 = Some st"
    "set (attempted st) = set (concat (map fst (getDoctorLinksWithPagination listing 10)))"
    by blast
  let ?run = "\<lparr> scraped = attempted st, file_writes = [scrape_results st] \<rparr>"
  have "main_scrape previous listing scrape = Some ?run"
    using st(1) by (simp add: main_scrape_def)
  moreover have "main_scrape None listing scrape = Some ?run"
    using st(1) by (simp add: main_scrape_def)
  moreover have "scrapeMultipleDoctors listing scrape 12 10 = Some (scrape_results st)"
    using st(1) by (simp add: scrapeMultipleDoctors_def)
  ultimately show ?thesis using st(2) by (intro exI [of _ ?run] exI [of _ "scrape_results st"]) simp
qed

text \<open>
  C2 as stated fails: the file holds a record for the url of page 1 already, and the run
  scrapes that url again; the run has two batches (pages 1 and 3 have a new link each) and
  writes the file once.
\<close>

theorem extraction_rescrapes_stored_url:
  "main_scrape (Some [scrape_one scrape_always 1 ''http://a''])
     listing_with_repeated_page scrape_always =
   Some \<lparr> scraped = [''http://a'', ''http://b''],
          file_writes = [[scrape_one scrape_always 1 ''http://a'',
                          scrape_one scrape_always 3 ''http://b'']] \<rparr>"
  by (simp add: eval_scrape listing_with_repeated_page_def scrape_always_def)

section \<open>Properties of the merge endpoint\<close>

lemma doctorMap_None: "(doctorMap doctorData u = None) = (u \<notin> doctor_url ` set doctorData)"
proof -
  have "\<And>m. (fold (\<lambda>doc m. m(doctor_url doc \<mapsto> data doc)) doctorData m u = None)
            = (m u = None \<and> u \<notin> doctor_url ` set doctorData)"
    by (induction doctorData) auto
  then show ?thesis by (simp add: doctorMap_def)
qed

text \<open>
  C10. In the row the endpoint serves for a row of the analysis file: all three fields are
  null when no extraction record has the row's url, or when the record has no data. With
  data, a field is null exactly when its value is absent or falsy (0 for the rating and
  the review count, the empty string for the avatar). A record whose three values are
  falsy gives the very row that an empty extraction file gives.
\<close>

theorem merged_fields_null_when_falsy:
  fixes doctorData :: "DoctorResult list" and therapist :: "'a TherapistRow"
  defines "found \<equiv> doctorMap doctorData (row_url therapist)"
  defines "row \<equiv> merge_row (doctorMap doctorData) therapist"
  shows "(row_url therapist \<notin> doctor_url ` set doctorData \<longrightarrow>
            merged_rating row = None \<and> merged_reviewCount row = None \<and> merged_avatar row = None)
       \<and> (found = Some None \<longrightarrow>
            merged_rating row = None \<and> merged_reviewCount row = None \<and> merged_avatar row = None)
       \<and> (\<forall>info. found = Some (Some info) \<longrightarrow>
            (merged_rating row = None) = (rating info = None \<or> rating info = Some 0)
          \<and> (merged_reviewCount row = None) = (reviewCount info = None \<or> reviewCount info = Some 0)
          \<and> (merged_avatar row = None) = (avatar info = None \<or> avatar info = Some []))
       \<and> (\<forall>info. found = Some (Some info) \<and> rating info = Some 0 \<and> reviewCount info = Some 0
                  \<and> avatar info = Some []
            \<longrightarrow> row = merge_row (doctorMap []) therapist)
       \<and> mergedData [therapist] doctorData = [row]"
proof (intro conjI)
  show "row_url therapist \<notin> doctor_url ` set doctorData \<longrightarrow>
            merged_rating row = None \<and> merged_reviewCount row = None \<and> merged_avatar row = None"
    using doctorMap_None [of doctorData "row_url therapist"]
    by (auto simp: row_def merge_row_def doctor_field_def number_or_null_def string_or_null_def)
  show "found = Some None \<longrightarrow>
            merged_rating row = None \<and> merged_reviewCount row = None \<and> merged_avatar row = None"
    by (simp add: found_def row_def merge_row_def doctor_field_def number_or_null_def string_or_null_def)
  show "\<forall>info. found = Some (Some info) \<longrightarrow>
            (merged_rating row = None) = (rating info = None \<or> rating info = Some 0)
          \<and> (merged_reviewCount row = None) = (reviewCount info = None \<or> reviewCount info = Some 0)
          \<and> (merged_avatar row = None) = (avatar info = None \<or> avatar info = Some [])"
    by (auto simp: found_def row_def merge_row_def doctor_field_def number_or_null_def
          string_or_null_def split: option.splits)
  show "\<forall>info. found = Some (Some info) \<and> rating info = Some 0 \<and> reviewCount info = Some 0
                  \<and> avatar info = Some []
            \<longrightarrow> row = merge_row (doctorMap []) therapist"
    by (simp add: found_def row_def merge_row_def doctor_field_def number_or_null_def
          string_or_null_def doctorMap_def)
  show "mergedData [therapist] doctorData = [row]"
    by (simp add: mergedData_def row_def)
qed

text \<open>The theorem at work: a record with rating 0, review count 0 and an empty avatar.\<close>

theorem merged_fields_null_when_falsy_witness:
  "doctorMap [\<lparr> doctor_url = ''u'', data = Some doctor_with_zeros, scrape_error = None,
                 pageNumber = Some 1 \<rparr>] ''u'' = Some (Some doctor_with_zeros)
   \<and> rating doctor_with_zeros = Some 0 \<and> reviewCount doctor_with_zeros = Some 0
   \<and> avatar doctor_with_zeros = Some []
   \<and> merge_row (doctorMap [\<lparr> doctor_url = ''u'', data = Some doctor_with_zeros,
                              scrape_error = None, pageNumber = Some 1 \<rparr>])
               \<lparr> row_url = ''u'', row_fields = (87::nat) \<rparr>
     = merge_row (doctorMap []) \<lparr> row_url = ''u'', row_fields = (87::nat) \<rparr>
   \<and> merge_row (doctorMap []) \<lparr> row_url = ''u'', row_fields = (87::nat) \<rparr>
     = \<lparr> row_url = ''u'', row_fields = 87, merged_rating = None, merged_reviewCount = None,
         merged_avatar = None \<rparr>"
proof -
  let ?dd = "[\<lparr> doctor_url = ''u'', data = Some doctor_with_zeros, scrape_error = None,
                pageNumber = Some 1 \<rparr>]"
  let ?t = "\<lparr> row_url = ''u'', row_fields = (87::nat) \<rparr>"
  have f: "doctorMap ?dd (row_url ?t) = Some (Some doctor_with_zeros)"
    by (simp add: doctorMap_def)
  have z: "rating doctor_with_zeros = Some 0" "reviewCount doctor_with_zeros = Some 0"
    "avatar doctor_with_zeros = Some []"
    by (simp_all add: doctor_with_zeros_def)
  have "merge_row (doctorMap ?dd) ?t = merge_row (doctorMap []) ?t"
    using merged_fields_null_when_falsy [where doctorData = ?dd and therapist = ?t,
            THEN conjunct2, THEN conjunct2, THEN conjunct2, THEN conjunct1, rule_format,
            where info = doctor_with_zeros] f z
    by blast
  moreover have "merge_row (doctorMap []) ?t
     = \<lparr> row_url = ''u'', row_fields = 87, merged_rating = None, merged_reviewCount = None,
         merged_avatar = None \<rparr>"
    by (simp add: merge_row_def doctorMap_def doctor_field_def number_or_null_def string_or_null_def)
  ultimately show ?thesis using f z by simp
qed

end
